theory Spec2Isabelle
  imports Main "HOL-Library.Sublist"
begin

section \<open>Configuration constants\<close>

text \<open>
  The module-level constants of \<^verbatim>\<open>cameraCapture1camA.py\<close> that the control flow reads.
  The step functions below take them as a configuration record, so that the theorems hold
  for every choice of the constants; \<open>source_config\<close> holds the values of the source.
\<close>

record config =
  FRAMES_TO_RECORD :: nat
  TRIALS_TO_RECORD :: nat
  CAM_TIMEOUT :: nat

definition source_config :: config where
  "source_config = \<lparr>FRAMES_TO_RECORD = 10000, TRIALS_TO_RECORD = 1000, CAM_TIMEOUT = 100\<rparr>"

section \<open>The camera as a feed of events\<close>

text \<open>
  The camera driver (PySpin) is outside the repository. Its behaviour is a feed of events,
  one per trigger window: an image arrives, nothing arrives within the bounded timeout, or
  the device fails. \<open>GetNextImage\<close> is the blocking retrieval: without a timeout argument
  it waits through silent windows and never returns when the feed stays silent (the value
  \<open>None\<close>); with a timeout it raises when the window is silent. Any other driver failure
  raises as well; PySpin has one exception class for both.
\<close>

datatype 'a cam_event = Image 'a | NoImage | DeviceError

datatype policy = Infinite | Bounded nat

datatype spin_error = TimeoutError | OtherError

datatype 'a retrieval = Got 'a | Raised spin_error

fun GetNextImage :: "policy \<Rightarrow> 'a cam_event list \<Rightarrow> ('a retrieval \<times> 'a cam_event list) option" where
  "GetNextImage p (Image a # es) = Some (Got a, es)"
| "GetNextImage p (DeviceError # es) = Some (Raised OtherError, es)"
| "GetNextImage Infinite (NoImage # es) = GetNextImage Infinite es"
| "GetNextImage Infinite [] = None"
| "GetNextImage (Bounded t) (NoImage # es) = Some (Raised TimeoutError, es)"
| "GetNextImage (Bounded t) [] = Some (Raised TimeoutError, [])"

section \<open>The state of one trial\<close>

text \<open>
  One iteration of \<^verbatim>\<open>for j in range(TRIALS_TO_RECORD)\<close> runs three threads: the main
  thread (the controller), \<^verbatim>\<open>camCapture\<close> and \<^verbatim>\<open>saveImage\<close>. Each thread has a program
  counter; a step of a thread is one statement that touches shared state (a queue, the
  flag \<^verbatim>\<open>tEnd\<close>, the camera, the writer), with the thread-local work around it.
\<close>

datatype 'a cap_pc =
    CapLoop            \<comment> \<open>at \<^verbatim>\<open>while True:\<close>, before the retrieval\<close>
  | CapHave 'a         \<comment> \<open>an image was retrieved, before \<^verbatim>\<open>camQueue.put\<close>\<close>
  | CapBroke           \<comment> \<open>left the loop by \<^verbatim>\<open>break\<close>\<close>
  | CapDied            \<comment> \<open>ended by an exception that nothing caught\<close>

datatype 'a save_pc =
    SaveGet            \<comment> \<open>at \<^verbatim>\<open>imageWriteQueue.get()\<close>\<close>
  | SaveWrite 'a       \<comment> \<open>before \<^verbatim>\<open>writer.writeFrame\<close>\<close>
  | SaveTaskDone       \<comment> \<open>before \<^verbatim>\<open>imageWriteQueue.task_done()\<close>\<close>
  | SaveBroke          \<comment> \<open>left the loop by \<^verbatim>\<open>break\<close>\<close>
  | SaveDied           \<comment> \<open>ended by an exception that nothing caught\<close>

datatype ending = Broke | Exhausted

datatype 'a main_pc =
    MSetFlag           \<comment> \<open>before \<^verbatim>\<open>tEnd = 0\<close>; the worker threads are started\<close>
  | MEmpty nat         \<comment> \<open>iteration i, at \<^verbatim>\<open>while cam1Queue.empty()\<close>\<close>
  | MSleep nat         \<comment> \<open>in the polling loop: sleep, then \<^verbatim>\<open>if tEnd == 1: break\<close>\<close>
  | MIfEnd nat         \<comment> \<open>after the polling loop, at \<^verbatim>\<open>if tEnd == 1\<close>\<close>
  | MGet nat           \<comment> \<open>before \<^verbatim>\<open>cam1Queue.get()\<close>\<close>
  | MPut nat 'a        \<comment> \<open>before \<^verbatim>\<open>imageWriteQueue1.put\<close>\<close>
  | MEndAcq            \<comment> \<open>before \<^verbatim>\<open>cam1.EndAcquisition()\<close> of the timeout branch\<close>
  | MJoin              \<comment> \<open>at \<^verbatim>\<open>imageWriteQueue1.join()\<close>\<close>
  | MClose             \<comment> \<open>before \<^verbatim>\<open>writer1.close()\<close>\<close>
  | MTrialOver ending  \<comment> \<open>the frame loop is left: by \<^verbatim>\<open>break\<close>, or all iterations ran\<close>
  | MShutEndAcq        \<comment> \<open>after the \<^verbatim>\<open>try\<close> statement, before \<^verbatim>\<open>cam1.EndAcquisition()\<close>\<close>
  | MShutPrint         \<comment> \<open>before the \<^verbatim>\<open>print\<close> that reads \<^verbatim>\<open>tStart\<close>\<close>
  | MShutDeInit        \<comment> \<open>before \<^verbatim>\<open>cam1.DeInit()\<close> and the release of the system\<close>
  | MDone              \<comment> \<open>after \<^verbatim>\<open>print('Done!')\<close>\<close>
  | MDied              \<comment> \<open>ended by an exception that nothing caught\<close>

record 'a trial =
  feed :: "'a cam_event list"            \<comment> \<open>what the camera will still deliver\<close>
  calls :: "(nat \<times> policy) list"         \<comment> \<open>log: the retrievals that returned, with k\<close>
  retrieved :: "'a list"                 \<comment> \<open>log: the images retrieved\<close>
  cap :: "'a cap_pc"
  k :: nat
  camQueue :: "'a list"
  tEnd :: nat
  mainpc :: "'a main_pc"
  j :: nat
  tStart :: bool                         \<comment> \<open>whether the global \<^verbatim>\<open>tStart\<close> is bound\<close>
  streaming :: bool                      \<comment> \<open>between Begin- and EndAcquisition\<close>
  cam_open :: bool                       \<comment> \<open>between \<^verbatim>\<open>cam.Init()\<close> and \<^verbatim>\<open>cam1.DeInit()\<close>\<close>
  imageWriteQueue :: "'a option list"
  enqueued :: "'a list"                  \<comment> \<open>log: the images put on the write queue\<close>
  unfinished :: nat                      \<comment> \<open>the write queue's count of unfinished tasks\<close>
  savepc :: "'a save_pc"
  written :: "'a list"                   \<comment> \<open>the sink: the frames given to \<^verbatim>\<open>writeFrame\<close>\<close>
  writer_closed :: bool

text \<open>
  The state right after \<^verbatim>\<open>cam1Thread.start()\<close> in trial \<open>jj\<close>: both queues are new and
  empty, the writer is new, the capture thread got \<^verbatim>\<open>i = 0\<close> as its \<open>k\<close>, and the main
  thread is about to run \<^verbatim>\<open>tEnd = 0\<close>. \<open>t0\<close> is what \<^verbatim>\<open>tEnd\<close> holds from before and
  \<open>ts\<close> tells whether \<^verbatim>\<open>tStart\<close> was bound by an earlier trial.
\<close>

definition start_trial :: "nat \<Rightarrow> nat \<Rightarrow> bool \<Rightarrow> 'a cam_event list \<Rightarrow> 'a trial" where
  "start_trial jj t0 ts evs =
     \<lparr>feed = evs, calls = [], retrieved = [], cap = CapLoop, k = 0, camQueue = [],
      tEnd = t0, mainpc = MSetFlag, j = jj, tStart = ts, streaming = True, cam_open = True,
      imageWriteQueue = [], enqueued = [], unfinished = 0, savepc = SaveGet, written = [],
      writer_closed = False\<rparr>"

section \<open>The threads\<close>

subsection \<open>camCapture\<close>

text \<open>
  \<^verbatim>\<open>
  def camCapture(camQueue, cam, k):
      global tEnd
      while True:
          if k == 0:
              image = cam.GetNextImage()
          else:
              try:
                  image = cam.GetNextImage(CAM_TIMEOUT)
              except:
                  print(str(k) + ' frames captured')
                  tEnd = 1
                  break
          npImage = np.array(image.GetData(), dtype="uint8").reshape(...)
          camQueue.put(npImage)
          image.Release()
          k = k + 1
  \<close>
  The first step is the retrieval, with what follows an exception; the second is the
  \<^verbatim>\<open>put\<close> with the increment of \<open>k\<close>. An exception of the first retrieval is not
  caught and ends the thread; the \<^verbatim>\<open>except:\<close> of the later ones catches every
  exception. The function has no other way out of its loop.
\<close>

definition timeout_policy :: "config \<Rightarrow> nat \<Rightarrow> policy" where
  "timeout_policy cfg n = (if n = 0 then Infinite else Bounded (CAM_TIMEOUT cfg))"

definition camCapture :: "config \<Rightarrow> 'a trial \<Rightarrow> 'a trial option" where
  "camCapture cfg s =
     (case cap s of
        CapLoop \<Rightarrow>
          (case GetNextImage (timeout_policy cfg (k s)) (feed s) of
             None \<Rightarrow> None
           | Some (Got a, es) \<Rightarrow>
               Some (s\<lparr>feed := es, calls := calls s @ [(k s, timeout_policy cfg (k s))],
                       retrieved := retrieved s @ [a], cap := CapHave a\<rparr>)
           | Some (Raised e, es) \<Rightarrow>
               if k s = 0
               then Some (s\<lparr>feed := es, calls := calls s @ [(k s, timeout_policy cfg (k s))],
                            cap := CapDied\<rparr>)
               else Some (s\<lparr>feed := es, calls := calls s @ [(k s, timeout_policy cfg (k s))],
                            tEnd := 1, cap := CapBroke\<rparr>))
      | CapHave a \<Rightarrow> Some (s\<lparr>camQueue := camQueue s @ [a], k := k s + 1, cap := CapLoop\<rparr>)
      | CapBroke \<Rightarrow> None
      | CapDied \<Rightarrow> None)"

subsection \<open>saveImage\<close>

text \<open>
  \<^verbatim>\<open>
  def saveImage(imageWriteQueue, writer):
      while True:
          dequeuedImage = imageWriteQueue.get()
          if dequeuedImage is None:
              break
          else:
              writer.writeFrame(dequeuedImage)
              imageWriteQueue.task_done()
  \<close>
  \<^verbatim>\<open>get\<close> waits while the queue is empty. \<^verbatim>\<open>task_done\<close> raises when the queue has no
  unfinished task.
\<close>

definition saveImage :: "'a trial \<Rightarrow> 'a trial option" where
  "saveImage s =
     (case savepc s of
        SaveGet \<Rightarrow>
          (case imageWriteQueue s of
             [] \<Rightarrow> None
           | None # q \<Rightarrow> Some (s\<lparr>imageWriteQueue := q, savepc := SaveBroke\<rparr>)
           | Some a # q \<Rightarrow> Some (s\<lparr>imageWriteQueue := q, savepc := SaveWrite a\<rparr>))
      | SaveWrite a \<Rightarrow> Some (s\<lparr>written := written s @ [a], savepc := SaveTaskDone\<rparr>)
      | SaveTaskDone \<Rightarrow>
          (if unfinished s = 0 then Some (s\<lparr>savepc := SaveDied\<rparr>)
           else Some (s\<lparr>unfinished := unfinished s - 1, savepc := SaveGet\<rparr>))
      | SaveBroke \<Rightarrow> None
      | SaveDied \<Rightarrow> None)"

subsection \<open>The main thread\<close>

text \<open>
  \<^verbatim>\<open>
  tEnd = 0
  for i in range(FRAMES_TO_RECORD):
      while cam1Queue.empty():
          time.sleep(WAIT_TIME)
          if tEnd == 1:
              break
      if tEnd == 1:
          cam1.EndAcquisition()
          imageWriteQueue1.join()
          writer1.close()
          break
      if i == 0:
          tStart = time.time()
      dequeuedAcq1 = cam1Queue.get()
      imageWriteQueue1.put(dequeuedAcq1)
      ...
  \<close>
  and, after the \<^verbatim>\<open>try\<close> statement,
  \<^verbatim>\<open>
  cam1.EndAcquisition()
  tEndWrite = time.time()
  print('File written at: {:.2f}sec'.format(tEndWrite - tStart))
  window.destroy()
  cam1.DeInit()
  ...
  system.ReleaseInstance()
  print('Done!')
  \<close>
  \<^verbatim>\<open>join\<close> waits until the write queue has no unfinished task. When the frame loop is
  left, the loop over the trials goes on: with the next trial, which is a new
  \<open>start_trial\<close> and not a step of this one, or, after the last trial, with the code
  after the \<^verbatim>\<open>try\<close> statement. Reading \<^verbatim>\<open>tStart\<close> while it is unbound raises
  \<^verbatim>\<open>NameError\<close>, which ends the main thread.
\<close>

definition for_frames :: "config \<Rightarrow> nat \<Rightarrow> 'a main_pc" where
  "for_frames cfg i = (if i < FRAMES_TO_RECORD cfg then MEmpty i else MTrialOver Exhausted)"

definition main_thread :: "config \<Rightarrow> 'a trial \<Rightarrow> 'a trial option" where
  "main_thread cfg s =
     (case mainpc s of
        MSetFlag \<Rightarrow> Some (s\<lparr>tEnd := 0, mainpc := for_frames cfg 0\<rparr>)
      | MEmpty i \<Rightarrow> Some (s\<lparr>mainpc := (if camQueue s = [] then MSleep i else MIfEnd i)\<rparr>)
      | MSleep i \<Rightarrow> Some (s\<lparr>mainpc := (if tEnd s = 1 then MIfEnd i else MEmpty i)\<rparr>)
      | MIfEnd i \<Rightarrow>
          (if tEnd s = 1 then Some (s\<lparr>mainpc := MEndAcq\<rparr>)
           else Some (s\<lparr>tStart := (tStart s \<or> i = 0), mainpc := MGet i\<rparr>))
      | MGet i \<Rightarrow>
          (case camQueue s of
             [] \<Rightarrow> None
           | a # q \<Rightarrow> Some (s\<lparr>camQueue := q, mainpc := MPut i a\<rparr>))
      | MPut i a \<Rightarrow>
          Some (s\<lparr>imageWriteQueue := imageWriteQueue s @ [Some a], enqueued := enqueued s @ [a],
                  unfinished := unfinished s + 1, mainpc := for_frames cfg (i + 1)\<rparr>)
      | MEndAcq \<Rightarrow> Some (s\<lparr>streaming := False, mainpc := MJoin\<rparr>)
      | MJoin \<Rightarrow> (if unfinished s = 0 then Some (s\<lparr>mainpc := MClose\<rparr>) else None)
      | MClose \<Rightarrow> Some (s\<lparr>writer_closed := True, mainpc := MTrialOver Broke\<rparr>)
      | MTrialOver e \<Rightarrow>
          (if j s + 1 < TRIALS_TO_RECORD cfg then None else Some (s\<lparr>mainpc := MShutEndAcq\<rparr>))
      | MShutEndAcq \<Rightarrow> Some (s\<lparr>streaming := False, mainpc := MShutPrint\<rparr>)
      | MShutPrint \<Rightarrow> Some (s\<lparr>mainpc := (if tStart s then MShutDeInit else MDied)\<rparr>)
      | MShutDeInit \<Rightarrow> Some (s\<lparr>cam_open := False, mainpc := MDone\<rparr>)
      | MDone \<Rightarrow> None
      | MDied \<Rightarrow> None)"

text \<open>
  Ctrl-C raises \<^verbatim>\<open>KeyboardInterrupt\<close> in the main thread. Inside the \<^verbatim>\<open>try\<close> statement
  the handler runs and control goes on after it; after the \<^verbatim>\<open>try\<close> statement nothing
  catches it.
\<close>

fun in_try :: "'a main_pc \<Rightarrow> bool" where
  "in_try MShutEndAcq = False"
| "in_try MShutPrint = False"
| "in_try MShutDeInit = False"
| "in_try MDone = False"
| "in_try MDied = False"
| "in_try _ = True"

definition KeyboardInterrupt :: "'a trial \<Rightarrow> 'a trial option" where
  "KeyboardInterrupt s =
     (if in_try (mainpc s) then Some (s\<lparr>mainpc := MShutEndAcq\<rparr>)
      else if mainpc s = MDone \<or> mainpc s = MDied then None
      else Some (s\<lparr>mainpc := MDied\<rparr>))"

section \<open>Interleavings\<close>

datatype actor = Cap | Ctl | Sav | CtrlC

fun step :: "config \<Rightarrow> actor \<Rightarrow> 'a trial \<Rightarrow> 'a trial option" where
  "step cfg Cap s = camCapture cfg s"
| "step cfg Ctl s = main_thread cfg s"
| "step cfg Sav s = saveImage s"
| "step cfg CtrlC s = KeyboardInterrupt s"

text \<open>
  A schedule names the thread that moves next. A thread that cannot move (it waits on an
  empty queue, on \<^verbatim>\<open>join\<close>, on the camera, or it has ended) leaves the state as it is.
\<close>

definition advance :: "config \<Rightarrow> actor \<Rightarrow> 'a trial \<Rightarrow> 'a trial" where
  "advance cfg a s = (case step cfg a s of None \<Rightarrow> s | Some s' \<Rightarrow> s')"

fun run :: "config \<Rightarrow> actor list \<Rightarrow> 'a trial \<Rightarrow> 'a trial" where
  "run cfg [] s = s"
| "run cfg (a # as) s = run cfg as (advance cfg a s)"

section \<open>What the invariants speak about\<close>


fun cap_hold :: "'a cap_pc \<Rightarrow> 'a list" where
  "cap_hold (CapHave a) = [a]"
| "cap_hold _ = []"

fun main_hold :: "'a main_pc \<Rightarrow> 'a list" where
  "main_hold (MPut i a) = [a]"
| "main_hold _ = []"

fun save_hold :: "'a save_pc \<Rightarrow> 'a list" where
  "save_hold (SaveWrite a) = [a]"
| "save_hold _ = []"

fun save_busy :: "'a save_pc \<Rightarrow> nat" where
  "save_busy (SaveWrite a) = 1"
| "save_busy SaveTaskDone = 1"
| "save_busy _ = 0"

fun save_alive :: "'a save_pc \<Rightarrow> bool" where
  "save_alive SaveBroke = False"
| "save_alive SaveDied = False"
| "save_alive _ = True"

fun no_more_put :: "'a main_pc \<Rightarrow> bool" where
  "no_more_put MSetFlag = False"
| "no_more_put (MEmpty i) = False"
| "no_more_put (MSleep i) = False"
| "no_more_put (MIfEnd i) = False"
| "no_more_put (MGet i) = False"
| "no_more_put (MPut i a) = False"
| "no_more_put MEndAcq = False"
| "no_more_put MJoin = False"
| "no_more_put _ = True"

fun flag_reset :: "'a main_pc \<Rightarrow> bool" where
  "flag_reset MSetFlag = False"
| "flag_reset MShutEndAcq = False"
| "flag_reset MShutPrint = False"
| "flag_reset MShutDeInit = False"
| "flag_reset MDone = False"
| "flag_reset MDied = False"
| "flag_reset _ = True"

fun saw_timeout :: "'a main_pc \<Rightarrow> bool" where
  "saw_timeout MEndAcq = True"
| "saw_timeout MJoin = True"
| "saw_timeout MClose = True"
| "saw_timeout (MTrialOver Broke) = True"
| "saw_timeout _ = False"

fun loop_count :: "nat \<Rightarrow> 'a main_pc \<Rightarrow> nat \<Rightarrow> bool" where
  "loop_count N MSetFlag n = (n = 0)"
| "loop_count N (MEmpty i) n = (n = i \<and> i < N)"
| "loop_count N (MSleep i) n = (n = i \<and> i < N)"
| "loop_count N (MIfEnd i) n = (n = i \<and> i < N)"
| "loop_count N (MGet i) n = (n = i \<and> i < N)"
| "loop_count N (MPut i a) n = (n = i \<and> i < N)"
| "loop_count N (MTrialOver Exhausted) n = (n = N)"
| "loop_count N _ n = (n \<le> N)"

fun images :: "'a cam_event list \<Rightarrow> 'a list" where
  "images [] = []"
| "images (Image a # es) = a # images es"
| "images (NoImage # es) = images es"
| "images (DeviceError # es) = images es"


text \<open>
  Where every retrieved frame is: the frames retrieved are those put on the write queue,
  then the one the main thread holds, then (only after the \<^verbatim>\<open>try\<close> statement was left)
  frames the main thread dropped, then the capture queue, then the one the capture thread
  holds. The frames put on the write queue are those written, the one the save thread
  holds, and the write queue. The write queue holds no \<^verbatim>\<open>None\<close>, and its count of
  unfinished tasks is its length plus the item the save thread works on.
\<close>

definition flow_inv :: "'a trial \<Rightarrow> bool" where
  "flow_inv s \<longleftrightarrow>
     (\<exists>lost. retrieved s = enqueued s @ main_hold (mainpc s) @ lost @ camQueue s @ cap_hold (cap s)
        \<and> (in_try (mainpc s) \<longrightarrow> lost = [])) \<and>
     enqueued s = written s @ save_hold (savepc s) @ map the (imageWriteQueue s) \<and>
     None \<notin> set (imageWriteQueue s) \<and>
     unfinished s = length (imageWriteQueue s) + save_busy (savepc s) \<and>
     save_alive (savepc s)"

definition barrier_inv :: "'a trial \<Rightarrow> bool" where
  "barrier_inv s \<longleftrightarrow>
     (mainpc s = MClose \<or> writer_closed s \<longrightarrow>
        imageWriteQueue s = [] \<and> savepc s = SaveGet \<and> no_more_put (mainpc s))"

definition capk_inv :: "'a trial \<Rightarrow> bool" where
  "capk_inv s \<longleftrightarrow> (cap s = CapBroke \<longrightarrow> 0 < k s) \<and> (cap s = CapDied \<longrightarrow> k s = 0)"

definition flag_inv :: "'a trial \<Rightarrow> bool" where
  "flag_inv s \<longleftrightarrow>
     (flag_reset (mainpc s) \<and> tEnd s \<noteq> 0 \<or> saw_timeout (mainpc s) \<or> writer_closed s
        \<longrightarrow> cap s = CapBroke)"

definition count_inv :: "config \<Rightarrow> 'a trial \<Rightarrow> bool" where
  "count_inv cfg s = loop_count (FRAMES_TO_RECORD cfg) (mainpc s) (length (enqueued s))"

definition feed_inv :: "'a cam_event list \<Rightarrow> 'a trial \<Rightarrow> bool" where
  "feed_inv evs s \<longleftrightarrow> (\<exists>c. evs = c @ feed s \<and> retrieved s = images c)"

section \<open>Device errors as silent windows\<close>

text \<open>
  \<open>weaken\<close> turns a device error into a silent trigger window. Two states are
  \<open>same_but_feed\<close> when they differ only in that respect, and the first retrieval of the
  trial, if still to come, finds an image.
\<close>

definition weaken :: "'a cam_event \<Rightarrow> 'a cam_event" where
  "weaken e = (case e of DeviceError \<Rightarrow> NoImage | _ \<Rightarrow> e)"

definition first_seen :: "'a trial \<Rightarrow> bool" where
  "first_seen s \<longleftrightarrow> (cap s = CapLoop \<and> k s = 0 \<longrightarrow> (\<exists>a es. feed s = Image a # es))"

definition same_but_feed :: "'a trial \<Rightarrow> 'a trial \<Rightarrow> bool" where
  "same_but_feed s u \<longleftrightarrow> u = s\<lparr>feed := map weaken (feed s)\<rparr> \<and> first_seen s"

section \<open>Scenarios\<close>

text \<open>
  Concrete runs of the first trial of a session (\<^verbatim>\<open>j = 0\<close>, \<^verbatim>\<open>tStart\<close> not yet bound),
  with the constants of the source unless said otherwise. Images are numbered.
\<close>

text \<open>
  The camera delivers two frames and then falls silent. The main thread relays both
  frames, the save thread writes them, the capture thread times out, and the main thread
  ends the trial.
\<close>

definition relayed_schedule :: "actor list" where
  "relayed_schedule =
     [Ctl, Cap, Cap, Ctl, Ctl, Ctl, Ctl, Cap, Cap, Ctl, Ctl, Ctl, Ctl, Sav, Sav, Sav, Cap,
      Sav, Sav, Sav, Ctl, Ctl, Ctl, Ctl, Ctl, Ctl]"

definition relayed_trial :: "nat trial" where
  "relayed_trial = run source_config relayed_schedule (start_trial 0 0 False [Image 10, Image 11])"

text \<open>
  The same camera, but the main thread does not run between the arrival of the second
  frame and the timeout 100 ms later: it finds the second frame in the queue and the flag
  set.
\<close>

definition late_controller :: "actor list" where
  "late_controller =
     [Ctl, Cap, Cap, Ctl, Ctl, Ctl, Ctl, Sav, Sav, Sav, Cap, Cap, Cap, Ctl, Ctl, Ctl, Ctl, Ctl]"

definition timed_out_trial :: "nat trial" where
  "timed_out_trial = run source_config late_controller (start_trial 0 0 False [Image 10, Image 11])"

text \<open>
  No trigger ever arrives; the main thread polls once, then the operator presses Ctrl-C,
  and the main thread runs the code after the \<^verbatim>\<open>try\<close> statement.
\<close>

definition interrupted_waiting :: "nat trial" where
  "interrupted_waiting =
     run source_config [Ctl, Ctl, Ctl, CtrlC, Ctl, Ctl] (start_trial 0 0 False [])"

text \<open>
  A target of two frames, and a camera that delivers three: the frame loop runs its two
  iterations, the save thread writes both frames, and the capture thread retrieves the
  third frame afterwards.
\<close>

definition two_frames :: config where
  "two_frames = \<lparr>FRAMES_TO_RECORD = 2, TRIALS_TO_RECORD = 1000, CAM_TIMEOUT = 100\<rparr>"

definition extra_trigger :: "actor list" where
  "extra_trigger =
     [Ctl, Cap, Cap, Cap, Cap, Ctl, Ctl, Ctl, Ctl, Ctl, Ctl, Ctl, Ctl,
      Sav, Sav, Sav, Sav, Sav, Sav, Cap, Cap]"

definition completed_trial :: "nat trial" where
  "completed_trial =
     run two_frames extra_trigger (start_trial 0 0 False [Image 10, Image 11, Image 12])"

text \<open>
  The same with the constants of the source: the camera delivers one frame more than
  \<^verbatim>\<open>FRAMES_TO_RECORD\<close>. In each round the capture thread retrieves and queues a frame, the
  main thread relays it and the save thread writes it; after the last round the capture
  thread retrieves the extra frame. The frames are numbered from 0. \<open>after_rounds\<close> is
  the state such a run is in after \<open>i\<close> rounds, with \<open>es\<close> still to come from the camera.
\<close>

definition one_round :: "actor list" where
  "one_round = [Cap, Cap, Ctl, Ctl, Ctl, Ctl, Sav, Sav, Sav]"

definition long_schedule :: "nat \<Rightarrow> actor list" where
  "long_schedule n = Ctl # concat (replicate n one_round) @ [Cap, Cap]"

definition overlong_recording :: "config \<Rightarrow> nat trial" where
  "overlong_recording cfg =
     run cfg (long_schedule (FRAMES_TO_RECORD cfg))
       (start_trial 0 0 False
          (map Image [0..<FRAMES_TO_RECORD cfg] @ [Image (FRAMES_TO_RECORD cfg)]))"

definition after_rounds :: "config \<Rightarrow> nat \<Rightarrow> nat cam_event list \<Rightarrow> nat trial" where
  "after_rounds cfg i es =
     \<lparr>feed = es,
      calls = map (\<lambda>n. (n, timeout_policy cfg n)) [0..<i],
      retrieved = [0..<i], cap = CapLoop, k = i, camQueue = [], tEnd = 0,
      mainpc = for_frames cfg i, j = 0, tStart = (0 < i), streaming = True, cam_open = True,
      imageWriteQueue = [], enqueued = [0..<i], unfinished = 0, savepc = SaveGet,
      written = [0..<i], writer_closed = False\<rparr>"

text \<open>One frame arrives; then the device fails, or the camera is silent.\<close>

definition after_device_error :: "nat trial" where
  "after_device_error =
     run source_config [Ctl, Cap, Cap, Cap] (start_trial 0 0 False [Image 10, DeviceError])"

definition after_silence :: "nat trial" where
  "after_silence =
     run source_config [Ctl, Cap, Cap, Cap] (start_trial 0 0 False [Image 10, NoImage])"

text \<open>Three frames arrive; two are written while the third is still in the capture queue.\<close>

definition partly_written :: "nat trial" where
  "partly_written =
     run source_config
       [Ctl, Cap, Cap, Ctl, Ctl, Ctl, Ctl, Cap, Cap, Ctl, Ctl, Ctl, Ctl, Sav, Sav,
        Cap, Cap, Sav, Sav, Sav, Sav]
       (start_trial 0 0 False [Image 10, Image 11, Image 12])"


section \<open>The start of a session: folders and file names\<close>

text \<open>
  \<^verbatim>\<open>datetime.now()\<close> as a record of its fields, Python's \<^verbatim>\<open>str\<close> on a natural number,
  and \<^verbatim>\<open>strftime\<close> for the two formats of the source, whose fields are padded with
  zeros (\<^verbatim>\<open>%Y\<close> to four digits, the others to two).
\<close>

record datetime =
  year :: nat
  month :: nat
  day :: nat
  hour :: nat
  minute :: nat
  second :: nat

definition digit :: "nat \<Rightarrow> char" where
  "digit n = ''0123456789'' ! (n mod 10)"

fun str :: "nat \<Rightarrow> string" where
  "str n = (if n < 10 then [digit n] else str (n div 10) @ [digit n])"

declare str.simps [simp del]

definition zero_padded :: "nat \<Rightarrow> nat \<Rightarrow> string" where
  "zero_padded w n = replicate (w - length (str n)) (CHR ''0'') @ str n"

definition dateStr :: "datetime \<Rightarrow> string" where
  "dateStr now = zero_padded 4 (year now) @ ''_'' @ zero_padded 2 (month now) @ ''_'' @
                 zero_padded 2 (day now)"

definition timeStr :: "datetime \<Rightarrow> string" where
  "timeStr now = zero_padded 2 (hour now) @ ''_'' @ zero_padded 2 (minute now) @ ''_'' @
                 zero_padded 2 (second now)"

definition SAVE_FOLDER_ROOT :: string where
  "SAVE_FOLDER_ROOT = ''D:/video/bottom''"

text \<open>
  \<open>saveFolder\<close> is the value \<^verbatim>\<open>saveFolder\<close> has from line 76 on, the working directory
  of the session; \<open>movieName1\<close> is the name given to the writer of trial \<open>jj\<close>, and
  \<open>movie_path\<close> the file that name denotes in the working directory.
\<close>

definition saveFolder :: "string \<Rightarrow> datetime \<Rightarrow> string" where
  "saveFolder mouseStr now = SAVE_FOLDER_ROOT @ ''/'' @ mouseStr @ ''/'' @ dateStr now"

definition movieName1 :: "string \<Rightarrow> datetime \<Rightarrow> nat \<Rightarrow> string" where
  "movieName1 mouseStr now jj = mouseStr @ ''_'' @ dateStr now @ ''_bottom_'' @ str jj @ ''.mp4''"

definition movie_path :: "string \<Rightarrow> datetime \<Rightarrow> nat \<Rightarrow> string" where
  "movie_path mouseStr now jj = saveFolder mouseStr now @ ''/'' @ movieName1 mouseStr now jj"

text \<open>
  The file system is outside the repository. It is the set of the directories that exist,
  each a list of path components; a path string is split at \<^verbatim>\<open>/\<close> and \<^verbatim>\<open>\\<close>, and empty
  components (a doubled or trailing separator) do not count. \<^verbatim>\<open>os.mkdir\<close> makes one
  level: it raises when the directory exists and when its parent does not.
\<close>

datatype os_error = FileNotFoundError | FileExistsError

definition is_sep :: "char \<Rightarrow> bool" where
  "is_sep c \<longleftrightarrow> c = CHR ''/'' \<or> c = CHR 0x5C"

fun split_at_seps :: "string \<Rightarrow> string \<Rightarrow> string list" where
  "split_at_seps cur [] = (if cur = [] then [] else [cur])"
| "split_at_seps cur (c # cs) =
     (if is_sep c then (if cur = [] then split_at_seps [] cs else cur # split_at_seps [] cs)
      else split_at_seps (cur @ [c]) cs)"

definition components :: "string \<Rightarrow> string list" where
  "components p = split_at_seps [] p"

definition exists_dir :: "string list set \<Rightarrow> string \<Rightarrow> bool" where
  "exists_dir ds p \<longleftrightarrow> components p \<in> ds"

definition mkdir :: "string list set \<Rightarrow> string \<Rightarrow> os_error + string list set" where
  "mkdir ds p =
     (if components p \<in> ds then Inl FileExistsError
      else if components p = [] then Inl FileNotFoundError
      else if butlast (components p) = [] \<or> butlast (components p) \<in> ds
        then Inr (insert (components p) ds)
      else Inl FileNotFoundError)"

definition chdir :: "string list set \<Rightarrow> string \<Rightarrow> os_error + string list" where
  "chdir ds p = (if components p \<in> ds then Inr (components p) else Inl FileNotFoundError)"

text \<open>
  Lines 67 to 81 of the source, then the initialisation of the camera (line 169). Nothing
  catches an exception here: \<open>Inl (e, w)\<close> is the program ended by \<open>e\<close> in the world
  \<open>w\<close>.
\<close>

record world =
  dirs :: "string list set"
  cwd :: "string list"
  camera_initialised :: bool

definition make_folder :: "string list set \<Rightarrow> string \<Rightarrow> os_error + string list set" where
  "make_folder ds p = (if \<not> exists_dir ds p then mkdir ds p else Inr ds)"

definition startup :: "world \<Rightarrow> string \<Rightarrow> datetime \<Rightarrow> os_error \<times> world + world" where
  "startup w mouseStr now =
     (case make_folder (dirs w) (SAVE_FOLDER_ROOT @ ''/'' @ mouseStr) of
        Inl e \<Rightarrow> Inl (e, w)
      | Inr d1 \<Rightarrow>
          (case make_folder d1 (saveFolder mouseStr now) of
             Inl e \<Rightarrow> Inl (e, w\<lparr>dirs := d1\<rparr>)
           | Inr d2 \<Rightarrow>
               (case chdir d2 (saveFolder mouseStr now) of
                  Inl e \<Rightarrow> Inl (e, w\<lparr>dirs := d2\<rparr>)
                | Inr c \<Rightarrow> Inr (w\<lparr>dirs := d2, cwd := c, camera_initialised := True\<rparr>))))"

text \<open>
  A mouse ID that is one path component: not empty and without a separator. The names
  \<^verbatim>\<open>.\<close> and \<^verbatim>\<open>..\<close> are left out, since the operating system gives them a meaning
  that lists of components do not have. In a well-formed file system every directory's
  parent exists.
\<close>

definition plain_name :: "string \<Rightarrow> bool" where
  "plain_name m \<longleftrightarrow> m \<noteq> [] \<and> (\<forall>c \<in> set m. \<not> is_sep c) \<and> m \<noteq> ''.'' \<and> m \<noteq> ''..''"

definition parents_exist :: "string list set \<Rightarrow> bool" where
  "parents_exist ds \<longleftrightarrow> (\<forall>c \<in> ds. butlast c = [] \<or> butlast c \<in> ds)"

text \<open>Two sessions on the same day, and three states of the disk.\<close>

definition morning :: datetime where
  "morning = \<lparr>year = 2020, month = 1, day = 1, hour = 9, minute = 30, second = 59\<rparr>"

definition evening :: datetime where
  "evening = \<lparr>year = 2020, month = 1, day = 1, hour = 17, minute = 5, second = 0\<rparr>"

definition drive_only :: world where
  "drive_only = \<lparr>dirs = {[''D:'']}, cwd = [''D:''], camera_initialised = False\<rparr>"

definition video_only :: world where
  "video_only =
     \<lparr>dirs = {[''D:''], [''D:'', ''video'']}, cwd = [''D:''], camera_initialised = False\<rparr>"

definition after_morning :: world where
  "after_morning =
     \<lparr>dirs = {[''D:''], [''D:'', ''video''], [''D:'', ''video'', ''bottom''],
              [''D:'', ''video'', ''bottom'', ''m1''],
              [''D:'', ''video'', ''bottom'', ''m1'', ''2020_01_01'']},
      cwd = [''D:''], camera_initialised = False\<rparr>"

section \<open>Schedules and invariants\<close>

lemma run_append: "run cfg (xs @ ys) s = run cfg ys (run cfg xs s)"
  by (induction xs arbitrary: s) auto

text \<open>A property that every step of every thread keeps holds after every schedule.\<close>

lemma run_invariant:
  assumes "\<And>a s s'. P s \<Longrightarrow> step cfg a s = Some s' \<Longrightarrow> P s'" and "P s"
  shows "P (run cfg sched s)"
  using assms(2)
proof (induction sched arbitrary: s)
  case Nil
  then show ?case by simp
next
  case (Cons a sched)
  show ?case
  proof (cases "step cfg a s")
    case None
    with Cons show ?thesis by (simp add: advance_def)
  next
    case (Some s')
    with Cons.prems assms(1) have "P s'" by blast
    with Cons.IH Some show ?thesis by (simp add: advance_def)
  qed
qed

subsection \<open>The log of retrievals\<close>




subsection \<open>The flow of frames\<close>

lemma flow_inv_start: "flow_inv (start_trial jj t0 ts evs)"
  by (simp add: flow_inv_def start_trial_def)

lemma flow_inv_camCapture:
  "flow_inv s \<Longrightarrow> camCapture cfg s = Some s' \<Longrightarrow> flow_inv s'"
  by (cases "cap s")
     (auto simp: flow_inv_def camCapture_def
           split: option.splits retrieval.splits if_splits prod.splits)

lemma flow_inv_main_thread:
  "flow_inv s \<Longrightarrow> main_thread cfg s = Some s' \<Longrightarrow> flow_inv s'"
  by (cases "mainpc s")
     (auto simp: flow_inv_def main_thread_def for_frames_def split: list.splits if_splits)

lemma flow_inv_saveImage:
  "flow_inv s \<Longrightarrow> saveImage s = Some s' \<Longrightarrow> flow_inv s'"
  by (cases "savepc s")
     (auto simp: flow_inv_def saveImage_def split: list.splits option.splits if_splits)

lemma flow_inv_KeyboardInterrupt:
  "flow_inv s \<Longrightarrow> KeyboardInterrupt s = Some s' \<Longrightarrow> flow_inv s'"
  by (auto simp: flow_inv_def KeyboardInterrupt_def split: if_splits)

lemma flow_inv_step: "flow_inv s \<Longrightarrow> step cfg a s = Some s' \<Longrightarrow> flow_inv s'"
  by (cases a)
     (auto intro: flow_inv_camCapture flow_inv_main_thread flow_inv_saveImage
                  flow_inv_KeyboardInterrupt)

lemma flow_inv_run: "flow_inv (run cfg sched (start_trial jj t0 ts evs))"
  by (rule run_invariant [where P = flow_inv]) (auto intro: flow_inv_step flow_inv_start)

subsection \<open>The write queue at \<^verbatim>\<open>close\<close>\<close>

lemma barrier_inv_start: "barrier_inv (start_trial jj t0 ts evs)"
  by (simp add: barrier_inv_def start_trial_def)

lemma barrier_inv_camCapture:
  "barrier_inv s \<Longrightarrow> camCapture cfg s = Some s' \<Longrightarrow> barrier_inv s'"
  by (cases "cap s")
     (auto simp: barrier_inv_def camCapture_def
           split: option.splits retrieval.splits if_splits prod.splits)

text \<open>When \<^verbatim>\<open>join\<close> returns, the write queue is empty and the save thread is idle.\<close>

lemma join_returns:
  assumes "flow_inv s" and "unfinished s = 0"
  shows "imageWriteQueue s = [] \<and> savepc s = SaveGet"
  using assms by (cases "savepc s") (auto simp: flow_inv_def)

lemma barrier_inv_main_thread:
  "flow_inv s \<Longrightarrow> barrier_inv s \<Longrightarrow> main_thread cfg s = Some s' \<Longrightarrow> barrier_inv s'"
  by (cases "mainpc s")
     (auto simp: barrier_inv_def main_thread_def for_frames_def dest: join_returns
           split: list.splits if_splits)

lemma barrier_inv_saveImage:
  "barrier_inv s \<Longrightarrow> saveImage s = Some s' \<Longrightarrow> barrier_inv s'"
  by (cases "savepc s")
     (auto simp: barrier_inv_def saveImage_def split: list.splits option.splits if_splits)

lemma barrier_inv_KeyboardInterrupt:
  "barrier_inv s \<Longrightarrow> KeyboardInterrupt s = Some s' \<Longrightarrow> barrier_inv s'"
  by (auto simp: barrier_inv_def KeyboardInterrupt_def split: if_splits)

lemma barrier_inv_step:
  "flow_inv s \<Longrightarrow> barrier_inv s \<Longrightarrow> step cfg a s = Some s' \<Longrightarrow> barrier_inv s'"
proof (cases a)
  case Cap
  then show "barrier_inv s \<Longrightarrow> step cfg a s = Some s' \<Longrightarrow> barrier_inv s'"
    by (simp add: barrier_inv_camCapture)
next
  case Ctl
  then show "flow_inv s \<Longrightarrow> barrier_inv s \<Longrightarrow> step cfg a s = Some s' \<Longrightarrow> barrier_inv s'"
    by (simp add: barrier_inv_main_thread)
next
  case Sav
  then show "barrier_inv s \<Longrightarrow> step cfg a s = Some s' \<Longrightarrow> barrier_inv s'"
    by (simp add: barrier_inv_saveImage)
next
  case CtrlC
  then show "barrier_inv s \<Longrightarrow> step cfg a s = Some s' \<Longrightarrow> barrier_inv s'"
    by (simp add: barrier_inv_KeyboardInterrupt)
qed

lemma barrier_inv_run: "barrier_inv (run cfg sched (start_trial jj t0 ts evs))"
proof -
  have "flow_inv (run cfg sched (start_trial jj t0 ts evs)) \<and>
        barrier_inv (run cfg sched (start_trial jj t0 ts evs))"
  proof (rule run_invariant [where P = "\<lambda>s. flow_inv s \<and> barrier_inv s"])
    fix a and s s' :: "'a trial"
    assume "flow_inv s \<and> barrier_inv s" and "step cfg a s = Some s'"
    then show "flow_inv s' \<and> barrier_inv s'"
      using flow_inv_step barrier_inv_step by blast
  next
    show "flow_inv (start_trial jj t0 ts evs) \<and> barrier_inv (start_trial jj t0 ts evs)"
      by (simp add: flow_inv_start barrier_inv_start)
  qed
  then show ?thesis by simp
qed

subsection \<open>The flag \<^verbatim>\<open>tEnd\<close> and the end of the capture thread\<close>

lemma capk_inv_start: "capk_inv (start_trial jj t0 ts evs)"
  by (simp add: capk_inv_def start_trial_def)

lemma capk_inv_camCapture:
  "capk_inv s \<Longrightarrow> camCapture cfg s = Some s' \<Longrightarrow> capk_inv s'"
  by (cases "cap s")
     (auto simp: capk_inv_def camCapture_def
           split: option.splits retrieval.splits if_splits prod.splits)

lemma capk_inv_main_thread:
  "capk_inv s \<Longrightarrow> main_thread cfg s = Some s' \<Longrightarrow> capk_inv s'"
  by (cases "mainpc s")
     (auto simp: capk_inv_def main_thread_def split: list.splits if_splits)

lemma capk_inv_saveImage:
  "capk_inv s \<Longrightarrow> saveImage s = Some s' \<Longrightarrow> capk_inv s'"
  by (cases "savepc s")
     (auto simp: capk_inv_def saveImage_def split: list.splits option.splits if_splits)

lemma capk_inv_KeyboardInterrupt:
  "capk_inv s \<Longrightarrow> KeyboardInterrupt s = Some s' \<Longrightarrow> capk_inv s'"
  by (auto simp: capk_inv_def KeyboardInterrupt_def split: if_splits)

lemma capk_inv_step: "capk_inv s \<Longrightarrow> step cfg a s = Some s' \<Longrightarrow> capk_inv s'"
  by (cases a)
     (auto intro: capk_inv_camCapture capk_inv_main_thread capk_inv_saveImage
                  capk_inv_KeyboardInterrupt)

lemma capk_inv_run: "capk_inv (run cfg sched (start_trial jj t0 ts evs))"
  by (rule run_invariant [where P = capk_inv]) (auto intro: capk_inv_step capk_inv_start)

lemma flag_inv_start: "flag_inv (start_trial jj t0 ts evs)"
  by (simp add: flag_inv_def start_trial_def)

lemma flag_inv_camCapture:
  "flag_inv s \<Longrightarrow> camCapture cfg s = Some s' \<Longrightarrow> flag_inv s'"
  by (cases "cap s")
     (auto simp: flag_inv_def camCapture_def
           split: option.splits retrieval.splits if_splits prod.splits)

lemma flag_inv_main_thread:
  "flag_inv s \<Longrightarrow> main_thread cfg s = Some s' \<Longrightarrow> flag_inv s'"
  by (cases "mainpc s")
     (auto simp: flag_inv_def main_thread_def for_frames_def split: list.splits if_splits)

lemma flag_inv_saveImage:
  "flag_inv s \<Longrightarrow> saveImage s = Some s' \<Longrightarrow> flag_inv s'"
  by (cases "savepc s")
     (auto simp: flag_inv_def saveImage_def split: list.splits option.splits if_splits)

lemma flag_inv_KeyboardInterrupt:
  "flag_inv s \<Longrightarrow> KeyboardInterrupt s = Some s' \<Longrightarrow> flag_inv s'"
  by (auto simp: flag_inv_def KeyboardInterrupt_def split: if_splits)

lemma flag_inv_step: "flag_inv s \<Longrightarrow> step cfg a s = Some s' \<Longrightarrow> flag_inv s'"
  by (cases a)
     (auto intro: flag_inv_camCapture flag_inv_main_thread flag_inv_saveImage
                  flag_inv_KeyboardInterrupt)

lemma flag_inv_run: "flag_inv (run cfg sched (start_trial jj t0 ts evs))"
  by (rule run_invariant [where P = flag_inv]) (auto intro: flag_inv_step flag_inv_start)

subsection \<open>The frame loop's counter\<close>

lemma loop_count_le: "loop_count N pc n \<Longrightarrow> n \<le> N"
  by (induction N pc n rule: loop_count.induct) auto

lemma count_inv_start: "count_inv cfg (start_trial jj t0 ts evs)"
  by (simp add: count_inv_def start_trial_def)

lemma count_inv_camCapture:
  "count_inv cfg s \<Longrightarrow> camCapture cfg s = Some s' \<Longrightarrow> count_inv cfg s'"
  by (cases "cap s")
     (auto simp: count_inv_def camCapture_def
           split: option.splits retrieval.splits if_splits prod.splits)

lemma count_inv_main_thread:
  "count_inv cfg s \<Longrightarrow> main_thread cfg s = Some s' \<Longrightarrow> count_inv cfg s'"
  by (cases "mainpc s")
     (auto simp: count_inv_def main_thread_def for_frames_def dest: loop_count_le
           split: list.splits if_splits)

lemma count_inv_saveImage:
  "count_inv cfg s \<Longrightarrow> saveImage s = Some s' \<Longrightarrow> count_inv cfg s'"
  by (cases "savepc s")
     (auto simp: count_inv_def saveImage_def split: list.splits option.splits if_splits)

lemma count_inv_KeyboardInterrupt:
  "count_inv cfg s \<Longrightarrow> KeyboardInterrupt s = Some s' \<Longrightarrow> count_inv cfg s'"
  by (auto simp: count_inv_def KeyboardInterrupt_def dest: loop_count_le split: if_splits)

lemma count_inv_step: "count_inv cfg s \<Longrightarrow> step cfg a s = Some s' \<Longrightarrow> count_inv cfg s'"
  by (cases a)
     (auto intro: count_inv_camCapture count_inv_main_thread count_inv_saveImage
                  count_inv_KeyboardInterrupt)

lemma count_inv_run: "count_inv cfg (run cfg sched (start_trial jj t0 ts evs))"
  by (rule run_invariant [where P = "count_inv cfg"]) (auto intro: count_inv_step count_inv_start)

subsection \<open>The camera feed\<close>

lemma images_append: "images (xs @ ys) = images xs @ images ys"
  by (induction xs rule: images.induct) auto

lemma GetNextImage_consumes:
  "GetNextImage p es = Some (r, es') \<Longrightarrow>
     \<exists>c. es = c @ es' \<and> images c = (case r of Got a \<Rightarrow> [a] | Raised e \<Rightarrow> [])"
proof (induction p es rule: GetNextImage.induct)
  case (1 p a es)
  then show ?case by (auto intro: exI [of _ "[Image a]"])
next
  case (2 p es)
  then show ?case by (auto intro: exI [of _ "[DeviceError]"])
next
  case (3 es)
  then obtain c where "es = c @ es'" "images c = (case r of Got a \<Rightarrow> [a] | Raised e \<Rightarrow> [])"
    by auto
  then show ?case by (auto intro: exI [of _ "NoImage # c"])
next
  case 4
  then show ?case by simp
next
  case (5 t es)
  then show ?case by (auto intro: exI [of _ "[NoImage]"])
next
  case (6 t)
  then show ?case by auto
qed

lemma feed_inv_start: "feed_inv evs (start_trial jj t0 ts evs)"
  by (simp add: feed_inv_def start_trial_def)

lemma feed_inv_camCapture:
  assumes "feed_inv evs s" and "camCapture cfg s = Some s'"
  shows "feed_inv evs s'"
proof (cases "cap s")
  case CapLoop
  from assms(1) obtain c where c: "evs = c @ feed s" "retrieved s = images c"
    by (auto simp: feed_inv_def)
  from assms(2) CapLoop obtain r es where
    g: "GetNextImage (timeout_policy cfg (k s)) (feed s) = Some (r, es)"
    by (auto simp: camCapture_def split: option.splits)
  from GetNextImage_consumes [OF g] obtain d where
    d: "feed s = d @ es" "images d = (case r of Got a \<Rightarrow> [a] | Raised e \<Rightarrow> [])"
    by blast
  from assms(2) CapLoop g have "feed s' = es \<and> retrieved s' = retrieved s @ images d"
    using d(2) by (auto simp: camCapture_def split: retrieval.splits if_splits)
  with c d(1) have "evs = (c @ d) @ feed s' \<and> retrieved s' = images (c @ d)"
    by (simp add: images_append)
  then show ?thesis
    unfolding feed_inv_def by blast
next
  case (CapHave a)
  with assms show ?thesis by (auto simp: feed_inv_def camCapture_def)
next
  case CapBroke
  with assms show ?thesis by (simp add: camCapture_def)
next
  case CapDied
  with assms show ?thesis by (simp add: camCapture_def)
qed

lemma feed_inv_main_thread:
  "feed_inv evs s \<Longrightarrow> main_thread cfg s = Some s' \<Longrightarrow> feed_inv evs s'"
  by (cases "mainpc s")
     (auto simp: feed_inv_def main_thread_def split: list.splits if_splits)

lemma feed_inv_saveImage:
  "feed_inv evs s \<Longrightarrow> saveImage s = Some s' \<Longrightarrow> feed_inv evs s'"
  by (cases "savepc s")
     (auto simp: feed_inv_def saveImage_def split: list.splits option.splits if_splits)

lemma feed_inv_KeyboardInterrupt:
  "feed_inv evs s \<Longrightarrow> KeyboardInterrupt s = Some s' \<Longrightarrow> feed_inv evs s'"
  by (auto simp: feed_inv_def KeyboardInterrupt_def split: if_splits)

lemma feed_inv_step: "feed_inv evs s \<Longrightarrow> step cfg a s = Some s' \<Longrightarrow> feed_inv evs s'"
  by (cases a)
     (auto intro: feed_inv_camCapture feed_inv_main_thread feed_inv_saveImage
                  feed_inv_KeyboardInterrupt)

lemma feed_inv_run: "feed_inv evs (run cfg sched (start_trial jj t0 ts evs))"
  by (rule run_invariant [where P = "feed_inv evs"]) (auto intro: feed_inv_step feed_inv_start)

section \<open>The scenarios, evaluated\<close>

lemmas eval_defs = start_trial_def source_config_def advance_def camCapture_def main_thread_def
  saveImage_def KeyboardInterrupt_def timeout_policy_def for_frames_def

lemma relayed_trial_state:
  "relayed_trial =
     \<lparr>feed = [], calls = [(0, Infinite), (1, Bounded 100), (2, Bounded 100)],
      retrieved = [10, 11], cap = CapBroke, k = 2, camQueue = [], tEnd = 1,
      mainpc = MTrialOver Broke, j = 0, tStart = True, streaming = False, cam_open = True,
      imageWriteQueue = [], enqueued = [10, 11], unfinished = 0, savepc = SaveGet,
      written = [10, 11], writer_closed = True\<rparr>"
  by (simp add: relayed_trial_def relayed_schedule_def eval_defs)

lemma timed_out_trial_state:
  "timed_out_trial =
     \<lparr>feed = [], calls = [(0, Infinite), (1, Bounded 100), (2, Bounded 100)],
      retrieved = [10, 11], cap = CapBroke, k = 2, camQueue = [11], tEnd = 1,
      mainpc = MTrialOver Broke, j = 0, tStart = True, streaming = False, cam_open = True,
      imageWriteQueue = [], enqueued = [10], unfinished = 0, savepc = SaveGet,
      written = [10], writer_closed = True\<rparr>"
  by (simp add: timed_out_trial_def late_controller_def eval_defs)

lemma interrupted_waiting_state:
  "interrupted_waiting =
     \<lparr>feed = [], calls = [], retrieved = [], cap = CapLoop, k = 0, camQueue = [], tEnd = 0,
      mainpc = MDied, j = 0, tStart = False, streaming = False, cam_open = True,
      imageWriteQueue = [], enqueued = [], unfinished = 0, savepc = SaveGet, written = [],
      writer_closed = False\<rparr>"
  by (simp add: interrupted_waiting_def eval_defs)

lemma completed_trial_state:
  "completed_trial =
     \<lparr>feed = [], calls = [(0, Infinite), (1, Bounded 100), (2, Bounded 100)],
      retrieved = [10, 11, 12], cap = CapLoop, k = 3, camQueue = [12], tEnd = 0,
      mainpc = MTrialOver Exhausted, j = 0, tStart = True, streaming = True, cam_open = True,
      imageWriteQueue = [], enqueued = [10, 11], unfinished = 0, savepc = SaveGet,
      written = [10, 11], writer_closed = False\<rparr>"
  by (simp add: completed_trial_def extra_trigger_def two_frames_def eval_defs)

lemma after_device_error_state:
  "after_device_error =
     \<lparr>feed = [], calls = [(0, Infinite), (1, Bounded 100)], retrieved = [10], cap = CapBroke,
      k = 1, camQueue = [10], tEnd = 1, mainpc = MEmpty 0, j = 0, tStart = False,
      streaming = True, cam_open = True, imageWriteQueue = [], enqueued = [], unfinished = 0,
      savepc = SaveGet, written = [], writer_closed = False\<rparr>"
  by (simp add: after_device_error_def eval_defs)

lemma after_silence_state:
  "after_silence =
     \<lparr>feed = [], calls = [(0, Infinite), (1, Bounded 100)], retrieved = [10], cap = CapBroke,
      k = 1, camQueue = [10], tEnd = 1, mainpc = MEmpty 0, j = 0, tStart = False,
      streaming = True, cam_open = True, imageWriteQueue = [], enqueued = [], unfinished = 0,
      savepc = SaveGet, written = [], writer_closed = False\<rparr>"
  by (simp add: after_silence_def eval_defs)

lemma partly_written_state:
  "partly_written =
     \<lparr>feed = [], calls = [(0, Infinite), (1, Bounded 100), (2, Bounded 100)],
      retrieved = [10, 11, 12], cap = CapLoop, k = 3, camQueue = [12], tEnd = 0,
      mainpc = MEmpty 2, j = 0, tStart = True, streaming = True, cam_open = True,
      imageWriteQueue = [], enqueued = [10, 11], unfinished = 0, savepc = SaveGet,
      written = [10, 11], writer_closed = False\<rparr>"
  by (simp add: partly_written_def eval_defs)


subsection \<open>A recording of any length\<close>

lemma first_step: "advance cfg Ctl (start_trial 0 0 False es) = after_rounds cfg 0 es"
  by (simp add: advance_def main_thread_def start_trial_def after_rounds_def)

lemma round:
  "i < FRAMES_TO_RECORD cfg \<Longrightarrow>
     run cfg one_round (after_rounds cfg i (Image i # es)) = after_rounds cfg (Suc i) es"
  by (auto simp: one_round_def after_rounds_def advance_def camCapture_def main_thread_def
        saveImage_def for_frames_def)

lemma rounds:
  "i + m \<le> FRAMES_TO_RECORD cfg \<Longrightarrow>
     run cfg (concat (replicate m one_round)) (after_rounds cfg i (map Image [i..<i + m] @ es)) =
       after_rounds cfg (i + m) es"
proof (induction m arbitrary: i)
  case 0
  then show ?case by simp
next
  case (Suc m)
  then have l: "i < FRAMES_TO_RECORD cfg" and "Suc i + m \<le> FRAMES_TO_RECORD cfg"
    by simp_all
  then have "run cfg (concat (replicate m one_round))
               (after_rounds cfg (Suc i) (map Image [Suc i..<Suc i + m] @ es)) =
             after_rounds cfg (Suc i + m) es"
    using Suc.IH by blast
  moreover have "[i..<i + Suc m] = i # [Suc i..<Suc i + m]"
    by (simp add: upt_conv_Cons)
  ultimately show ?case
    using l by (simp add: run_append round del: upt_Suc)
qed

lemma last_steps:
  "run cfg [Cap, Cap] (after_rounds cfg i [Image i]) =
     (after_rounds cfg i [])
       \<lparr>calls := map (\<lambda>n. (n, timeout_policy cfg n)) [0..<Suc i],
        retrieved := [0..<Suc i], k := Suc i, camQueue := [i]\<rparr>"
  by (simp add: after_rounds_def advance_def camCapture_def)

lemma overlong_recording_state:
  "overlong_recording cfg =
     (after_rounds cfg (FRAMES_TO_RECORD cfg) [])
       \<lparr>calls := map (\<lambda>n. (n, timeout_policy cfg n)) [0..<Suc (FRAMES_TO_RECORD cfg)],
        retrieved := [0..<Suc (FRAMES_TO_RECORD cfg)], k := Suc (FRAMES_TO_RECORD cfg),
        camQueue := [FRAMES_TO_RECORD cfg]\<rparr>"
proof -
  let ?n = "FRAMES_TO_RECORD cfg"
  have "overlong_recording cfg =
          run cfg [Cap, Cap]
            (run cfg (concat (replicate ?n one_round))
               (after_rounds cfg 0 (map Image [0..<?n] @ [Image ?n])))"
    unfolding overlong_recording_def long_schedule_def
    by (simp only: run.simps first_step run_append)
  also have "\<dots> = run cfg [Cap, Cap] (after_rounds cfg ?n [Image ?n])"
    using rounds [of 0 ?n cfg "[Image ?n]"] by simp
  finally show ?thesis
    by (simp only: last_steps)
qed

lemma overlong_recording_end:
  "mainpc (overlong_recording cfg) = MTrialOver Exhausted
   \<and> cap (overlong_recording cfg) = CapLoop
   \<and> length (retrieved (overlong_recording cfg)) = Suc (FRAMES_TO_RECORD cfg)
   \<and> length (written (overlong_recording cfg)) = FRAMES_TO_RECORD cfg
   \<and> camQueue (overlong_recording cfg) = [FRAMES_TO_RECORD cfg]
   \<and> \<not> writer_closed (overlong_recording cfg)"
  by (simp add: overlong_recording_state after_rounds_def for_frames_def)

section \<open>Device errors after the first frame\<close>

lemma GetNextImage_weaken:
  "GetNextImage (Bounded t) (map weaken es) =
     (case GetNextImage (Bounded t) es of
        None \<Rightarrow> None
      | Some (Got a, r) \<Rightarrow> Some (Got a, map weaken r)
      | Some (Raised e, r) \<Rightarrow> Some (Raised TimeoutError, map weaken r))"
proof (cases es)
  case Nil
  then show ?thesis by simp
next
  case (Cons e r)
  then show ?thesis by (cases e) (simp_all add: weaken_def)
qed

lemma same_but_feed_camCapture:
  assumes "same_but_feed s u"
  shows "same_but_feed (advance cfg Cap s) (advance cfg Cap u)"
proof (cases "cap s")
  case CapLoop
  show ?thesis
  proof (cases "k s = 0")
    case True
    with assms CapLoop obtain a es where "feed s = Image a # es"
      by (auto simp: same_but_feed_def first_seen_def)
    with assms CapLoop True show ?thesis
      by (simp add: same_but_feed_def first_seen_def advance_def camCapture_def
                    timeout_policy_def weaken_def)
  next
    case False
    with assms CapLoop show ?thesis
      by (auto simp: same_but_feed_def first_seen_def advance_def camCapture_def
                     timeout_policy_def GetNextImage_weaken
               split: option.splits retrieval.splits prod.splits)
  qed
next
  case (CapHave a)
  with assms show ?thesis
    by (simp add: same_but_feed_def first_seen_def advance_def camCapture_def)
next
  case CapBroke
  with assms show ?thesis
    by (simp add: same_but_feed_def first_seen_def advance_def camCapture_def)
next
  case CapDied
  with assms show ?thesis
    by (simp add: same_but_feed_def first_seen_def advance_def camCapture_def)
qed

lemma same_but_feed_main_thread:
  "same_but_feed s u \<Longrightarrow> same_but_feed (advance cfg Ctl s) (advance cfg Ctl u)"
  by (cases "mainpc s")
     (auto simp: same_but_feed_def first_seen_def advance_def main_thread_def
           split: list.splits)

lemma same_but_feed_saveImage:
  "same_but_feed s u \<Longrightarrow> same_but_feed (advance cfg Sav s) (advance cfg Sav u)"
  by (cases "savepc s")
     (auto simp: same_but_feed_def first_seen_def advance_def saveImage_def
           split: list.splits option.splits)

lemma same_but_feed_KeyboardInterrupt:
  "same_but_feed s u \<Longrightarrow> same_but_feed (advance cfg CtrlC s) (advance cfg CtrlC u)"
  by (auto simp: same_but_feed_def first_seen_def advance_def KeyboardInterrupt_def)

lemma same_but_feed_advance:
  "same_but_feed s u \<Longrightarrow> same_but_feed (advance cfg a s) (advance cfg a u)"
  by (cases a)
     (simp_all add: same_but_feed_camCapture same_but_feed_main_thread
        same_but_feed_saveImage same_but_feed_KeyboardInterrupt)

lemma same_but_feed_run:
  "same_but_feed s u \<Longrightarrow> same_but_feed (run cfg sched s) (run cfg sched u)"
  by (induction sched arbitrary: s u) (simp_all add: same_but_feed_advance)

section \<open>What becomes of the frames and of the save thread\<close>

text \<open>
  When the writer has been closed and the main thread is still inside the \<^verbatim>\<open>try\<close>
  statement, the capture thread has ended, and the frames retrieved are the frames written
  followed by the frames left in the capture queue.
\<close>

lemma closed_trial_accounting:
  assumes "s = run cfg sched (start_trial jj t0 ts evs)"
    and "writer_closed s" and "in_try (mainpc s)"
  shows "cap s = CapBroke \<and> retrieved s = written s @ camQueue s"
proof -
  have f: "flow_inv s" and b: "barrier_inv s" and g: "flag_inv s"
    using assms(1) flow_inv_run barrier_inv_run flag_inv_run by blast+
  from g assms(2) have c: "cap s = CapBroke"
    by (simp add: flag_inv_def)
  from b assms(2) have q: "imageWriteQueue s = []" "savepc s = SaveGet" "no_more_put (mainpc s)"
    by (auto simp: barrier_inv_def)
  from q(3) have "main_hold (mainpc s) = []"
    by (cases "mainpc s") simp_all
  with f c q assms(3) show ?thesis
    by (auto simp: flow_inv_def)
qed

text \<open>
  The write queue never holds \<^verbatim>\<open>None\<close>, and the save thread never leaves its loop.
\<close>

lemma save_thread_stays_in_loop:
  "None \<notin> set (imageWriteQueue (run cfg sched (start_trial jj t0 ts evs)))
   \<and> save_alive (savepc (run cfg sched (start_trial jj t0 ts evs)))"
  using flow_inv_run [of cfg sched jj t0 ts evs] by (simp add: flow_inv_def)

section \<open>The claims\<close>



text \<open>
  C5. \<^verbatim>\<open>writer1.close()\<close> comes after \<^verbatim>\<open>imageWriteQueue1.join()\<close>: in every state in
  which the main thread is about to call \<^verbatim>\<open>close\<close>, or has called it, every frame that
  was put on the write queue has been given to \<^verbatim>\<open>writeFrame\<close>, in the order of the
  puts; the write queue is empty and has no unfinished task.
\<close>

theorem close_after_every_write:
  assumes "s = run cfg sched (start_trial jj t0 ts evs)"
    and "mainpc s = MClose \<or> writer_closed s"
  shows "written s = enqueued s \<and> imageWriteQueue s = [] \<and> unfinished s = 0"
proof -
  have f: "flow_inv s" and b: "barrier_inv s"
    using assms(1) flow_inv_run barrier_inv_run by blast+
  from b assms(2) have q: "imageWriteQueue s = []" "savepc s = SaveGet"
    by (auto simp: barrier_inv_def)
  with f show ?thesis
    by (simp add: flow_inv_def)
qed

theorem close_after_every_write_witness:
  "writer_closed relayed_trial \<and> written relayed_trial = [10, 11]"
proof -
  have c: "writer_closed relayed_trial"
    by (simp add: relayed_trial_state)
  then have "mainpc relayed_trial = MClose \<or> writer_closed relayed_trial" ..
  with relayed_trial_def
  have "written relayed_trial = enqueued relayed_trial \<and> imageWriteQueue relayed_trial = []
          \<and> unfinished relayed_trial = 0"
    by (rule close_after_every_write)
  moreover have "enqueued relayed_trial = [10, 11]"
    by (simp add: relayed_trial_state)
  ultimately show ?thesis
    using c by simp
qed

text \<open>
  C8. Both queues are first-in first-out and each has one producer and one consumer: after
  every schedule the frames written are a prefix of the frames put on the write queue,
  which are a prefix of the frames retrieved, and the frames retrieved are the images of
  the consumed part of the camera feed, in the feed's order.
\<close>

theorem frames_keep_capture_order:
  "prefix (written (run cfg sched (start_trial jj t0 ts evs)))
          (enqueued (run cfg sched (start_trial jj t0 ts evs)))
   \<and> prefix (enqueued (run cfg sched (start_trial jj t0 ts evs)))
            (retrieved (run cfg sched (start_trial jj t0 ts evs)))
   \<and> (\<exists>c. evs = c @ feed (run cfg sched (start_trial jj t0 ts evs))
          \<and> retrieved (run cfg sched (start_trial jj t0 ts evs)) = images c)"
proof -
  let ?s = "run cfg sched (start_trial jj t0 ts evs)"
  have f: "flow_inv ?s" by (rule flow_inv_run)
  then have "prefix (written ?s) (enqueued ?s)"
    by (auto simp: flow_inv_def prefix_def)
  moreover from f have "prefix (enqueued ?s) (retrieved ?s)"
    by (auto simp: flow_inv_def prefix_def)
  moreover have "\<exists>c. evs = c @ feed ?s \<and> retrieved ?s = images c"
    using feed_inv_run [of evs cfg sched jj t0 ts] by (simp add: feed_inv_def)
  ultimately show ?thesis by blast
qed

theorem frames_keep_capture_order_witness:
  "prefix [10, 11] (retrieved partly_written) \<and> written partly_written = [10, 11]"
proof -
  have "prefix (written partly_written) (enqueued partly_written)"
    and "prefix (enqueued partly_written) (retrieved partly_written)"
    unfolding partly_written_def
    by (rule frames_keep_capture_order [THEN conjunct1],
        rule frames_keep_capture_order [THEN conjunct2, THEN conjunct1])
  then have "prefix (written partly_written) (retrieved partly_written)"
    by (rule prefix_order.trans)
  moreover have "written partly_written = [10, 11]"
    by (simp add: partly_written_state)
  ultimately show ?thesis by simp
qed

text \<open>
  C1. The claim is that a trial ended by a timeout has written every frame that was
  retrieved, also the frames still in the capture queue when the main thread sees the
  flag. The main thread tests \<^verbatim>\<open>tEnd == 1\<close> before it looks at the queue again and
  leaves the loop at once. In this run two frames were retrieved, the trial ended by the
  timeout and the writer is closed, yet one frame was written and the other is still in
  \<^verbatim>\<open>cam1Queue\<close>.
\<close>

theorem timeout_leaves_frame_in_capture_queue:
  "mainpc timed_out_trial = MTrialOver Broke \<and> writer_closed timed_out_trial
   \<and> cap timed_out_trial = CapBroke \<and> retrieved timed_out_trial = [10, 11]
   \<and> written timed_out_trial = [10] \<and> camQueue timed_out_trial = [11]"
  by (simp add: timed_out_trial_state)

text \<open>
  C4. The claim is that Ctrl-C while the program waits for the first trigger still closes
  the device and the writer and leaves no thread running. In this run the interrupt
  arrives before any frame: the code after the \<^verbatim>\<open>try\<close> statement calls
  \<^verbatim>\<open>EndAcquisition\<close> and then reads \<^verbatim>\<open>tStart\<close>, which is bound only when the first
  frame of a session is relayed, so the main thread ends there. The camera is not
  de-initialised, the writer is not closed, and both worker threads still wait.
\<close>

theorem interrupt_before_first_frame_dies:
  "mainpc interrupted_waiting = MDied \<and> retrieved interrupted_waiting = []
   \<and> \<not> tStart interrupted_waiting \<and> cam_open interrupted_waiting
   \<and> \<not> writer_closed interrupted_waiting
   \<and> cap interrupted_waiting = CapLoop \<and> savepc interrupted_waiting = SaveGet
   \<and> step source_config Ctl interrupted_waiting = None
   \<and> step source_config Cap interrupted_waiting = None
   \<and> step source_config Sav interrupted_waiting = None"
  by (simp add: interrupted_waiting_state camCapture_def main_thread_def saveImage_def
        timeout_policy_def)

text \<open>
  C2. The claim is that every end of the capture thread pushes the end-of-stream sentinel
  and that the consumer takes it last. \<^verbatim>\<open>saveImage\<close> does leave its loop when it takes
  \<^verbatim>\<open>None\<close> from the write queue, but nothing in the program ever puts \<^verbatim>\<open>None\<close> on a
  queue. In this run the capture thread has ended by the timeout, the main thread has
  closed the writer and left the trial, both queues are empty, and the save thread, which
  has taken and written the two frames, still waits in \<^verbatim>\<open>get\<close> and cannot move.
\<close>

theorem no_sentinel_after_timeout:
  "cap relayed_trial = CapBroke \<and> mainpc relayed_trial = MTrialOver Broke
   \<and> writer_closed relayed_trial
   \<and> camQueue relayed_trial = [] \<and> imageWriteQueue relayed_trial = []
   \<and> written relayed_trial = [10, 11] \<and> savepc relayed_trial = SaveGet
   \<and> saveImage relayed_trial = None"
  by (simp add: relayed_trial_state saveImage_def)

text \<open>
  C3, as the code has it. When the frame loop has run all \<^verbatim>\<open>FRAMES_TO_RECORD\<close>
  iterations, exactly that many frames were put on the write queue; they are the first
  \<^verbatim>\<open>FRAMES_TO_RECORD\<close> frames that were retrieved, in order; the frames written are a
  prefix of them, and all of them once the save thread has emptied the write queue.
\<close>

theorem exhausted_loop_relays_target_count:
  assumes "s = run cfg sched (start_trial jj t0 ts evs)"
    and "mainpc s = MTrialOver Exhausted"
  shows "length (enqueued s) = FRAMES_TO_RECORD cfg
       \<and> enqueued s = take (FRAMES_TO_RECORD cfg) (retrieved s)
       \<and> prefix (written s) (enqueued s)
       \<and> (imageWriteQueue s = [] \<and> savepc s = SaveGet \<longrightarrow> written s = enqueued s)"
proof -
  have f: "flow_inv s" and c: "count_inv cfg s"
    using assms(1) flow_inv_run count_inv_run by blast+
  from c assms(2) have n: "length (enqueued s) = FRAMES_TO_RECORD cfg"
    by (simp add: count_inv_def)
  from f obtain rest where "retrieved s = enqueued s @ rest"
    by (auto simp: flow_inv_def)
  with n have "enqueued s = take (FRAMES_TO_RECORD cfg) (retrieved s)"
    by simp
  moreover from f have "prefix (written s) (enqueued s)"
    by (auto simp: flow_inv_def prefix_def)
  moreover from f have "imageWriteQueue s = [] \<and> savepc s = SaveGet \<longrightarrow> written s = enqueued s"
    by (auto simp: flow_inv_def)
  ultimately show ?thesis
    using n by blast
qed

theorem exhausted_loop_relays_target_count_witness:
  "mainpc completed_trial = MTrialOver Exhausted
   \<and> length (enqueued completed_trial) = 2
   \<and> written completed_trial = take 2 (retrieved completed_trial)"
proof -
  have m: "mainpc completed_trial = MTrialOver Exhausted"
    by (simp add: completed_trial_state)
  note r = exhausted_loop_relays_target_count [OF completed_trial_def m]
  have n: "FRAMES_TO_RECORD two_frames = 2"
    by (simp add: two_frames_def)
  have q: "imageWriteQueue completed_trial = [] \<and> savepc completed_trial = SaveGet"
    by (simp add: completed_trial_state)
  from r have "length (enqueued completed_trial) = FRAMES_TO_RECORD two_frames"
    by blast
  then have l: "length (enqueued completed_trial) = 2"
    using n by (rule trans)
  from r q have w: "written completed_trial = enqueued completed_trial"
    by blast
  from r have e: "enqueued completed_trial =
                    take (FRAMES_TO_RECORD two_frames) (retrieved completed_trial)"
    by blast
  from w e n have "written completed_trial = take 2 (retrieved completed_trial)"
    by metis
  with m l show ?thesis by blast
qed

text \<open>
  C3 as stated fails: \<^verbatim>\<open>camCapture\<close> has no test of the frame count. With the
  constants of the source and a camera that sends 10001 triggers, the frame loop ends
  after 10000 frames while the capture thread is still in its loop and has retrieved frame
  number 10000 as well: 10000 frames are written, 10001 were retrieved, and the writer is
  not closed.
\<close>

theorem capture_goes_on_after_target:
  "mainpc (overlong_recording source_config) = MTrialOver Exhausted
   \<and> cap (overlong_recording source_config) = CapLoop
   \<and> length (retrieved (overlong_recording source_config)) = 10001
   \<and> length (written (overlong_recording source_config)) = 10000
   \<and> camQueue (overlong_recording source_config) = [10000]
   \<and> \<not> writer_closed (overlong_recording source_config)"
proof -
  have n: "FRAMES_TO_RECORD source_config = 10000"
    by (simp add: source_config_def)
  from overlong_recording_end [of source_config] show ?thesis
    unfolding n by simp
qed

text \<open>The same with a target of two frames and three triggers, step by step.\<close>

lemma capture_goes_on_after_two_frames:
  "FRAMES_TO_RECORD two_frames = 2 \<and> mainpc completed_trial = MTrialOver Exhausted
   \<and> cap completed_trial = CapLoop \<and> retrieved completed_trial = [10, 11, 12]
   \<and> written completed_trial = [10, 11] \<and> camQueue completed_trial = [12]"
  by (simp add: completed_trial_state two_frames_def)

text \<open>
  C6, as the code has it. Once the first frame of a trial has arrived, a device error is
  handled exactly as a timeout: the \<^verbatim>\<open>except:\<close> around the bounded retrieval catches
  every exception, sets \<^verbatim>\<open>tEnd = 1\<close> and leaves the loop. Replacing every device error
  after the first frame by a silent window changes nothing in what any thread does, in any
  interleaving; the two runs differ only in the events still unread.
\<close>

theorem device_error_handled_as_timeout:
  "run cfg sched (start_trial jj t0 ts (Image a # map weaken es)) =
     (run cfg sched (start_trial jj t0 ts (Image a # es)))
       \<lparr>feed := map weaken (feed (run cfg sched (start_trial jj t0 ts (Image a # es))))\<rparr>"
proof -
  have "same_but_feed (start_trial jj t0 ts (Image a # es))
                      (start_trial jj t0 ts (Image a # map weaken es))"
    by (simp add: same_but_feed_def first_seen_def start_trial_def weaken_def)
  then have "same_but_feed (run cfg sched (start_trial jj t0 ts (Image a # es)))
                           (run cfg sched (start_trial jj t0 ts (Image a # map weaken es)))"
    by (rule same_but_feed_run)
  then show ?thesis
    by (simp add: same_but_feed_def)
qed

theorem device_error_handled_as_timeout_witness:
  "after_silence = after_device_error\<lparr>feed := map weaken (feed after_device_error)\<rparr>"
proof -
  have w: "[NoImage :: nat cam_event] = map weaken [DeviceError]"
    by (simp add: weaken_def)
  show ?thesis
    unfolding after_silence_def after_device_error_def w
    by (rule device_error_handled_as_timeout)
qed

text \<open>
  C6 as stated fails: after one frame, a device error leaves the trial in the very state
  a timeout leaves it in, with the timeout flag set.
\<close>

theorem device_error_looks_like_timeout:
  "after_device_error = after_silence \<and> tEnd after_device_error = 1
   \<and> cap after_device_error = CapBroke"
  by (simp add: after_device_error_state after_silence_state)

section \<open>Folders and file names\<close>

lemmas name_defs = movie_path_def movieName1_def saveFolder_def SAVE_FOLDER_ROOT_def dateStr_def
  timeStr_def zero_padded_def digit_def morning_def evening_def

lemmas os_defs = startup_def make_folder_def exists_dir_def mkdir_def chdir_def components_def
  is_sep_def

lemma split_no_sep:
  "\<forall>c \<in> set m. \<not> is_sep c \<Longrightarrow> split_at_seps cur m = (if cur @ m = [] then [] else [cur @ m])"
  by (induction m arbitrary: cur) auto

lemma split_append_name:
  assumes "m \<noteq> []" and "\<forall>c \<in> set m. \<not> is_sep c" and "is_sep x"
  shows "split_at_seps cur (p @ x # m) = split_at_seps cur p @ [m]"
  using assms by (induction p arbitrary: cur) (auto simp: split_no_sep)

lemma components_root: "components SAVE_FOLDER_ROOT = [''D:'', ''video'', ''bottom'']"
  by (simp add: components_def SAVE_FOLDER_ROOT_def is_sep_def)

lemma components_mouse_folder:
  "plain_name m \<Longrightarrow> components (SAVE_FOLDER_ROOT @ ''/'' @ m) = components SAVE_FOLDER_ROOT @ [m]"
  unfolding components_def plain_name_def
  using split_append_name [of m "CHR ''/''" "[]" SAVE_FOLDER_ROOT]
  by (simp add: is_sep_def)

text \<open>
  C9. The claim is that two sessions started at different times get different file
  names and that an existing file of the session is not silently overwritten. The source
  computes \<^verbatim>\<open>timeStr\<close> and never uses it: folder and file name hold the mouse ID, the
  date and the trial index only. Two sessions for the same mouse on the same day, one in
  the morning and one in the evening, write trial 0 to the same path, and the second
  session starts without complaint in the folder the first one made.
\<close>

theorem same_day_sessions_share_file_name:
  "timeStr morning = ''09_30_59'' \<and> timeStr evening = ''17_05_00''
   \<and> movieName1 ''m1'' morning 0 = ''m1_2020_01_01_bottom_0.mp4''
   \<and> movieName1 ''m1'' evening 0 = ''m1_2020_01_01_bottom_0.mp4''
   \<and> movie_path ''m1'' morning 0 = movie_path ''m1'' evening 0
   \<and> startup after_morning ''m1'' evening =
       Inr (after_morning\<lparr>cwd := [''D:'', ''video'', ''bottom'', ''m1'', ''2020_01_01''],
                          camera_initialised := True\<rparr>)"
  by (simp add: name_defs os_defs after_morning_def str.simps)

text \<open>
  C10, as the code has it. In a well-formed file system where the save root does not
  exist, and for a mouse ID that is one path component, the first \<^verbatim>\<open>os.mkdir\<close> raises
  \<^verbatim>\<open>FileNotFoundError\<close>, which nothing catches: the program ends with no directory made
  and before the camera is initialised.
\<close>

theorem missing_root_stops_startup:
  assumes "parents_exist (dirs w)" and "components SAVE_FOLDER_ROOT \<notin> dirs w"
    and "plain_name mouseStr"
  shows "startup w mouseStr now = Inl (FileNotFoundError, w)"
proof -
  let ?c = "components (SAVE_FOLDER_ROOT @ ''/'' @ mouseStr)"
  have c: "?c = components SAVE_FOLDER_ROOT @ [mouseStr]"
    using assms(3) by (rule components_mouse_folder)
  then have b: "butlast ?c = components SAVE_FOLDER_ROOT"
    by simp
  have n: "?c \<notin> dirs w"
  proof
    assume "?c \<in> dirs w"
    with assms(1) have "butlast ?c = [] \<or> butlast ?c \<in> dirs w"
      by (simp add: parents_exist_def)
    with b assms(2) show False
      by (simp add: components_root)
  qed
  from n b assms(2) c
  have "make_folder (dirs w) (SAVE_FOLDER_ROOT @ ''/'' @ mouseStr) = Inl FileNotFoundError"
    by (simp add: make_folder_def exists_dir_def mkdir_def components_root)
  then show ?thesis
    by (simp add: startup_def)
qed

theorem missing_root_stops_startup_witness:
  "startup drive_only ''m1'' morning = Inl (FileNotFoundError, drive_only)
   \<and> \<not> camera_initialised drive_only"
proof -
  have "parents_exist (dirs drive_only)"
    by (simp add: parents_exist_def drive_only_def)
  moreover have "components SAVE_FOLDER_ROOT \<notin> dirs drive_only"
    by (simp add: components_root drive_only_def)
  moreover have "plain_name ''m1''"
    by (simp add: plain_name_def is_sep_def)
  ultimately have "startup drive_only ''m1'' morning = Inl (FileNotFoundError, drive_only)"
    by (rule missing_root_stops_startup)
  then show ?thesis
    by (simp add: drive_only_def)
qed

text \<open>
  C10 as stated fails: with an empty mouse ID the first path is the save root followed by
  a separator, so \<^verbatim>\<open>os.mkdir\<close> makes the missing root itself when the root's parent
  exists, and the program goes on to initialise the camera.
\<close>

theorem empty_mouse_id_creates_root:
  "components SAVE_FOLDER_ROOT \<notin> dirs video_only
   \<and> startup video_only [] morning =
       Inr \<lparr>dirs = {[''D:'', ''video'', ''bottom'', ''2020_01_01''],
                    [''D:'', ''video'', ''bottom''], [''D:''], [''D:'', ''video'']},
            cwd = [''D:'', ''video'', ''bottom'', ''2020_01_01''],
            camera_initialised = True\<rparr>"
  by (simp add: os_defs video_only_def name_defs str.simps)

end
